theory Spec2Isabelle
  imports Complex_Main
begin

section \<open>JavaScript numbers\<close>

text \<open>
  All arithmetic of \<^verbatim>\<open>script.js\<close> is on JavaScript Numbers. A Number is modelled as a
  finite value carrying a real, or one of the three non-finite values that the operations
  of the script can produce (division by zero, logarithm of a non-positive number, square
  root of a negative number). Finite arithmetic is exact: the rounding of IEEE-754 doubles,
  overflow to an infinity and underflow to zero are not represented, and there is a single
  zero, which divides like \<^verbatim>\<open>+0\<close>: the divisors of the script that can be zero are a
  square and sums with \<^verbatim>\<open>1\<close>, and these are \<^verbatim>\<open>+0\<close> when they are zero.
\<close>

datatype jsnum = Num real | PosInf | NegInf | NaN

instantiation jsnum :: uminus
begin

fun uminus_jsnum :: "jsnum \<Rightarrow> jsnum" where
  "uminus_jsnum (Num x) = Num (- x)"
| "uminus_jsnum PosInf = NegInf"
| "uminus_jsnum NegInf = PosInf"
| "uminus_jsnum NaN = NaN"

instance ..

end

instantiation jsnum :: plus
begin

fun plus_jsnum :: "jsnum \<Rightarrow> jsnum \<Rightarrow> jsnum" where
  "plus_jsnum NaN y = NaN"
| "plus_jsnum x NaN = NaN"
| "plus_jsnum (Num x) (Num y) = Num (x + y)"
| "plus_jsnum PosInf NegInf = NaN"
| "plus_jsnum NegInf PosInf = NaN"
| "plus_jsnum PosInf y = PosInf"
| "plus_jsnum NegInf y = NegInf"
| "plus_jsnum (Num x) y = y"

instance ..

end

instantiation jsnum :: minus
begin

definition minus_jsnum :: "jsnum \<Rightarrow> jsnum \<Rightarrow> jsnum" where
  "minus_jsnum x y = x + (- y)"

instance ..

end

text \<open>The sign of a Number that is not \<^verbatim>\<open>NaN\<close>: \<open>-1\<close>, \<open>0\<close> or \<open>1\<close>.\<close>

fun sign_of :: "jsnum \<Rightarrow> real" where
  "sign_of (Num x) = sgn x"
| "sign_of PosInf = 1"
| "sign_of NegInf = - 1"
| "sign_of NaN = 0"

definition signed_inf :: "real \<Rightarrow> jsnum" where
  "signed_inf s = (if s < 0 then NegInf else PosInf)"

instantiation jsnum :: times
begin

fun times_jsnum :: "jsnum \<Rightarrow> jsnum \<Rightarrow> jsnum" where
  "times_jsnum NaN y = NaN"
| "times_jsnum x NaN = NaN"
| "times_jsnum (Num x) (Num y) = Num (x * y)"
| "times_jsnum x y =
     (if sign_of x = 0 \<or> sign_of y = 0 then NaN else signed_inf (sign_of x * sign_of y))"

instance ..

end

fun js_divide :: "jsnum \<Rightarrow> jsnum \<Rightarrow> jsnum" where
  "js_divide NaN y = NaN"
| "js_divide x NaN = NaN"
| "js_divide (Num x) (Num y) =
     (if y \<noteq> 0 then Num (x / y) else if x = 0 then NaN else signed_inf x)"
| "js_divide (Num x) y = Num 0"
| "js_divide x (Num y) = signed_inf (sign_of x * (if y < 0 then - 1 else 1))"
| "js_divide x y = NaN"

instantiation jsnum :: inverse
begin

definition divide_jsnum :: "jsnum \<Rightarrow> jsnum \<Rightarrow> jsnum" where
  "divide_jsnum x y = js_divide x y"

definition inverse_jsnum :: "jsnum \<Rightarrow> jsnum" where
  "inverse_jsnum x = js_divide (Num 1) x"

instance ..

end

text \<open>Comparisons: every comparison with \<^verbatim>\<open>NaN\<close> is false.\<close>

instantiation jsnum :: ord
begin

fun less_jsnum :: "jsnum \<Rightarrow> jsnum \<Rightarrow> bool" where
  "less_jsnum NaN y = False"
| "less_jsnum x NaN = False"
| "less_jsnum (Num x) (Num y) = (x < y)"
| "less_jsnum x PosInf = (x \<noteq> PosInf)"
| "less_jsnum NegInf y = (y \<noteq> NegInf)"
| "less_jsnum x y = False"

fun less_eq_jsnum :: "jsnum \<Rightarrow> jsnum \<Rightarrow> bool" where
  "less_eq_jsnum NaN y = False"
| "less_eq_jsnum x NaN = False"
| "less_eq_jsnum (Num x) (Num y) = (x \<le> y)"
| "less_eq_jsnum x PosInf = True"
| "less_eq_jsnum NegInf y = True"
| "less_eq_jsnum x y = False"

instance ..

end

text \<open>The functions of \<^verbatim>\<open>Math\<close> that the script calls.\<close>

fun Math_abs :: "jsnum \<Rightarrow> jsnum" where
  "Math_abs (Num x) = Num \<bar>x\<bar>"
| "Math_abs PosInf = PosInf"
| "Math_abs NegInf = PosInf"
| "Math_abs NaN = NaN"

fun Math_sqrt :: "jsnum \<Rightarrow> jsnum" where
  "Math_sqrt (Num x) = (if x < 0 then NaN else Num (sqrt x))"
| "Math_sqrt PosInf = PosInf"
| "Math_sqrt NegInf = NaN"
| "Math_sqrt NaN = NaN"

fun Math_log :: "jsnum \<Rightarrow> jsnum" where
  "Math_log (Num x) = (if x < 0 then NaN else if x = 0 then NegInf else Num (ln x))"
| "Math_log PosInf = PosInf"
| "Math_log NegInf = NaN"
| "Math_log NaN = NaN"

fun Math_ceil :: "jsnum \<Rightarrow> jsnum" where
  "Math_ceil (Num x) = Num (of_int \<lceil>x\<rceil>)"
| "Math_ceil y = y"

text \<open>\<^verbatim>\<open>Math.pow\<close> for an exponent that is a natural number (the script only uses 2).\<close>

fun Math_pow :: "jsnum \<Rightarrow> nat \<Rightarrow> jsnum" where
  "Math_pow x 0 = Num 1"
| "Math_pow (Num x) n = Num (x ^ n)"
| "Math_pow PosInf n = PosInf"
| "Math_pow NegInf n = (if even n then PosInf else NegInf)"
| "Math_pow NaN n = NaN"

section \<open>The quantile function\<close>

text \<open>The four coefficient arrays of \<^verbatim>\<open>normalInverse\<close>, indexed from 0 as in the script.\<close>

definition a :: "jsnum list" where
  "a = [Num (- 39.69683028665376), Num 220.9460984245205, Num (- 275.9285104469687),
        Num 138.3577518672690, Num (- 30.66479806614716), Num 2.506628277459239]"

definition b :: "jsnum list" where
  "b = [Num (- 54.47609879822406), Num 161.5858368580409, Num (- 155.6989798598866),
        Num 66.80131188771972, Num (- 13.28068155288572)]"

definition c :: "jsnum list" where
  "c = [Num (- 0.007784894002430293), Num (- 0.3223964580411365), Num (- 2.400758277161838),
        Num (- 2.549732539343734), Num 4.374664141464968, Num 2.938163982698783]"

definition d :: "jsnum list" where
  "d = [Num 0.007784695709041462, Num 0.3224671290700398, Num 2.445134137142996,
        Num 3.754408661907416]"

definition pLow :: jsnum where
  "pLow = Num 0.02425"

definition pHigh :: jsnum where
  "pHigh = Num 1 - pLow"

text \<open>The branch of \<^verbatim>\<open>normalInverse\<close> that an argument takes.\<close>

datatype region = Lower | Central | Upper

definition region_of :: "jsnum \<Rightarrow> region" where
  "region_of p = (if p < pLow then Lower else if p \<le> pHigh then Central else Upper)"

definition normalInverse :: "jsnum \<Rightarrow> jsnum" where
  "normalInverse p =
     (case region_of p of
        Lower \<Rightarrow>
          (let q = Math_sqrt (Num (- 2) * Math_log p)
           in (((((c ! 0 * q + c ! 1) * q + c ! 2) * q + c ! 3) * q + c ! 4) * q + c ! 5) /
              ((((d ! 0 * q + d ! 1) * q + d ! 2) * q + d ! 3) * q + Num 1))
      | Central \<Rightarrow>
          (let q = p - Num 0.5;
               r = q * q
           in (((((a ! 0 * r + a ! 1) * r + a ! 2) * r + a ! 3) * r + a ! 4) * r + a ! 5) * q /
              (((((b ! 0 * r + b ! 1) * r + b ! 2) * r + b ! 3) * r + b ! 4) * r + Num 1))
      | Upper \<Rightarrow>
          (let q = Math_sqrt (Num (- 2) * Math_log (Num 1 - p))
           in (- (((((c ! 0 * q + c ! 1) * q + c ! 2) * q + c ! 3) * q + c ! 4) * q + c ! 5)) /
              ((((d ! 0 * q + d ! 1) * q + d ! 2) * q + d ! 3) * q + Num 1)))"

section \<open>The sample size calculator\<close>

text \<open>A thrown \<^verbatim>\<open>Error\<close> object, with its message.\<close>

datatype error = Error string

text \<open>The object that \<^verbatim>\<open>calculateSampleSize\<close> returns.\<close>

record result =
  controlSize :: jsnum
  testSize :: jsnum
  totalSize :: jsnum

text \<open>
  The constants that the body of \<^verbatim>\<open>calculateSampleSize\<close> has bound when it reaches its
  \<^verbatim>\<open>return\<close> statement, in the order of their declarations.
\<close>

record consts_bound =
  c_p1 :: jsnum
  c_p2 :: jsnum
  c_zAlpha :: jsnum
  c_zBeta :: jsnum
  c_delta :: jsnum
  c_nEqual :: jsnum
  c_k :: jsnum
  c_controlSize :: jsnum
  c_testSize :: jsnum
  c_totalSize :: jsnum

text \<open>The body of the \<^verbatim>\<open>try\<close> block, up to the \<^verbatim>\<open>return\<close> statement.\<close>

definition calculateSampleSize_try ::
  "jsnum \<Rightarrow> jsnum \<Rightarrow> jsnum \<Rightarrow> jsnum \<Rightarrow> bool \<Rightarrow> jsnum \<Rightarrow> error + consts_bound" where
  "calculateSampleSize_try bcr mde alpha power' twoSided splitRatio =
     (let p1 = bcr / Num 100;
          p2 = p1 * (Num 1 + mde / Num 100)
      in if p1 \<le> Num 0 \<or> p1 \<ge> Num 1 then
           Inl (Error ''Baseline conversion rate must be between 0 and 100%'')
         else if p2 \<le> Num 0 \<or> p2 > Num 1 then
           Inl (Error ''Resulting test conversion rate is invalid. Try a smaller MDE.'')
         else if alpha \<le> Num 0 \<or> alpha \<ge> Num 1 then
           Inl (Error ''Significance level must be between 0 and 1'')
         else if power' \<le> Num 0 \<or> power' \<ge> Num 1 then
           Inl (Error ''Statistical power must be between 0 and 1'')
         else if splitRatio \<le> Num 0 \<or> splitRatio \<ge> Num 1 then
           Inl (Error ''Split ratio must be between 0 and 1'')
         else
           (let zAlpha = (if twoSided then normalInverse (Num 1 - alpha / Num 2)
                          else normalInverse (Num 1 - alpha));
                zBeta = normalInverse power';
                delta = Math_abs (p2 - p1);
                nEqual = Num 2 * Math_pow (zAlpha + zBeta) 2 * p1 * (Num 1 - p1) /
                         Math_pow delta 2;
                k = splitRatio / (Num 1 - splitRatio);
                controlSize = Math_ceil (nEqual * (Num 1 + Num 1 / k) / Num 2);
                testSize = Math_ceil (controlSize * k);
                totalSize = controlSize + testSize
            in Inr \<lparr>c_p1 = p1, c_p2 = p2, c_zAlpha = zAlpha, c_zBeta = zBeta,
                    c_delta = delta, c_nEqual = nEqual, c_k = k,
                    c_controlSize = controlSize, c_testSize = testSize,
                    c_totalSize = totalSize\<rparr>))"

text \<open>
  The function itself: the \<^verbatim>\<open>return\<close> statement builds the result object from three of
  the constants, and the \<^verbatim>\<open>catch\<close> clause rethrows the error it caught.
\<close>

definition calculateSampleSize ::
  "jsnum \<Rightarrow> jsnum \<Rightarrow> jsnum \<Rightarrow> jsnum \<Rightarrow> bool \<Rightarrow> jsnum \<Rightarrow> error + result" where
  "calculateSampleSize bcr mde alpha power' twoSided splitRatio =
     (case calculateSampleSize_try bcr mde alpha power' twoSided splitRatio of
        Inl error \<Rightarrow> Inl error
      | Inr cs \<Rightarrow>
          Inr \<lparr>controlSize = c_controlSize cs, testSize = c_testSize cs,
               totalSize = c_totalSize cs\<rparr>)"

section \<open>The specification's formulas\<close>

text \<open>
  The quantile function as the specification describes it, over the reals: Horner evaluation
  of the coefficient sets \<open>A\<close>, \<open>B\<close>, \<open>C\<close>, \<open>D\<close>, the denominators with an implicit constant
  term \<open>1\<close>, on the three regions delimited by \<open>0.02425\<close> and \<open>1 - 0.02425\<close>.
\<close>

definition horner :: "real list \<Rightarrow> real \<Rightarrow> real" where
  "horner cs x = foldl (\<lambda>acc c. acc * x + c) 0 cs"

definition coeffs_A :: "real list" where
  "coeffs_A = [- 39.69683028665376, 220.9460984245205, - 275.9285104469687,
               138.3577518672690, - 30.66479806614716, 2.506628277459239]"

definition coeffs_B :: "real list" where
  "coeffs_B = [- 54.47609879822406, 161.5858368580409, - 155.6989798598866,
               66.80131188771972, - 13.28068155288572]"

definition coeffs_C :: "real list" where
  "coeffs_C = [- 0.007784894002430293, - 0.3223964580411365, - 2.400758277161838,
               - 2.549732539343734, 4.374664141464968, 2.938163982698783]"

definition coeffs_D :: "real list" where
  "coeffs_D = [0.007784695709041462, 0.3224671290700398, 2.445134137142996,
               3.754408661907416]"

definition quantile :: "real \<Rightarrow> real" where
  "quantile p =
     (if p < 0.02425 then
        (let q = sqrt (- 2 * ln p) in horner coeffs_C q / horner (coeffs_D @ [1]) q)
      else if p \<le> 1 - 0.02425 then
        (let q = p - 0.5; r = q\<^sup>2 in q * horner coeffs_A r / horner (coeffs_B @ [1]) r)
      else
        (let q = sqrt (- 2 * ln (1 - p)) in - (horner coeffs_C q / horner (coeffs_D @ [1]) q)))"

text \<open>
  The derivation steps of the sample size calculator as the specification numbers them:
  the two rates (steps 1 and 2), the conditions of step 3, and the formulas of steps 4 to 11.
\<close>

definition spec_p1 :: "real \<Rightarrow> real" where
  "spec_p1 bcr = bcr / 100"

definition spec_p2 :: "real \<Rightarrow> real \<Rightarrow> real" where
  "spec_p2 bcr mde = spec_p1 bcr * (1 + mde / 100)"

definition valid_input :: "real \<Rightarrow> real \<Rightarrow> real \<Rightarrow> real \<Rightarrow> real \<Rightarrow> bool" where
  "valid_input bcr mde alpha power' splitRatio \<longleftrightarrow>
     0 < spec_p1 bcr \<and> spec_p1 bcr < 1 \<and>
     0 < spec_p2 bcr mde \<and> spec_p2 bcr mde \<le> 1 \<and>
     0 < alpha \<and> alpha < 1 \<and>
     0 < power' \<and> power' < 1 \<and>
     0 < splitRatio \<and> splitRatio < 1"

definition spec_zAlpha :: "real \<Rightarrow> bool \<Rightarrow> real" where
  "spec_zAlpha alpha twoSided = (if twoSided then quantile (1 - alpha / 2) else quantile (1 - alpha))"

definition spec_zBeta :: "real \<Rightarrow> real" where
  "spec_zBeta power' = quantile power'"

definition spec_delta :: "real \<Rightarrow> real \<Rightarrow> real" where
  "spec_delta bcr mde = \<bar>spec_p2 bcr mde - spec_p1 bcr\<bar>"

definition spec_nEqual :: "real \<Rightarrow> real \<Rightarrow> real \<Rightarrow> real \<Rightarrow> real" where
  "spec_nEqual zAlpha zBeta p1 delta = 2 * (zAlpha + zBeta)\<^sup>2 * p1 * (1 - p1) / delta\<^sup>2"

definition spec_k :: "real \<Rightarrow> real" where
  "spec_k splitRatio = splitRatio / (1 - splitRatio)"

definition spec_controlSize :: "real \<Rightarrow> real \<Rightarrow> int" where
  "spec_controlSize nEqual k = \<lceil>nEqual * (1 + 1 / k) / 2\<rceil>"

definition spec_testSize :: "int \<Rightarrow> real \<Rightarrow> int" where
  "spec_testSize control k = \<lceil>of_int control * k\<rceil>"

definition spec_totalSize :: "int \<Rightarrow> int \<Rightarrow> int" where
  "spec_totalSize control test = control + test"


section \<open>Arithmetic on finite Numbers\<close>

lemma minus_Num [simp]: "Num x - Num y = Num (x - y)"
  by (simp add: minus_jsnum_def)

lemma divide_Num [simp]: "y \<noteq> 0 \<Longrightarrow> Num x / Num y = Num (x / y)"
  by (simp add: divide_jsnum_def)

lemma Math_pow_Num [simp]: "Math_pow (Num x) n = Num (x ^ n)"
  by (cases n) simp_all

lemma Math_pow_2_nonfinite [simp]:
  "Math_pow PosInf 2 = PosInf" "Math_pow NegInf 2 = PosInf" "Math_pow NaN 2 = NaN"
  by (simp_all add: numeral_2_eq_2)

lemma pHigh_eq: "pHigh = Num 0.97575"
  by (simp add: pHigh_def pLow_def)

section \<open>The quantile function on the open unit interval\<close>

text \<open>
  The denominator of the central region has no zero there: its expansion around \<open>0.2264\<close>,
  an upper bound of \<open>(p - 0.5)\<^sup>2\<close> on the region, has coefficients of one sign.
\<close>

lemma quintic_shift:
  fixes r R b0 b1 b2 b3 b4 :: real
  shows "((((b0 * r + b1) * r + b2) * r + b3) * r + b4) * r + 1 =
    (((((b0 * R + b1) * R + b2) * R + b3) * R + b4) * R + 1)
    + (R - r) * (- (5 * b0 * R ^ 4 + 4 * b1 * R ^ 3 + 3 * b2 * R\<^sup>2 + 2 * b3 * R + b4)
    + (R - r) * ((10 * b0 * R ^ 3 + 6 * b1 * R\<^sup>2 + 3 * b2 * R + b3)
    + (R - r) * (- (10 * b0 * R\<^sup>2 + 4 * b1 * R + b2)
    + (R - r) * ((5 * b0 * R + b1)
    + (R - r) * (- b0)))))"
  by algebra

lemma nested_nonneg:
  fixes t :: real
  assumes "0 \<le> t" "0 \<le> c1" "0 \<le> c2" "0 \<le> c3" "0 \<le> c4" "0 \<le> c5"
  shows "0 \<le> t * (c1 + t * (c2 + t * (c3 + t * (c4 + t * c5))))"
  using assms by (intro mult_nonneg_nonneg add_nonneg_nonneg)

lemma denominator_B_pos:
  fixes r :: real
  assumes "r \<le> 0.2264"
  shows "0 < ((((- 54.47609879822406 * r + 161.5858368580409) * r + - 155.6989798598866) * r
               + 66.80131188771972) * r + - 13.28068155288572) * r + 1"
proof -
  define t where "t = 0.2264 - r"
  have t: "0 \<le> t" using assms by (simp add: t_def)
  let ?b0 = "- 54.47609879822406 :: real" and ?b1 = "161.5858368580409 :: real"
    and ?b2 = "- 155.6989798598866 :: real" and ?b3 = "66.80131188771972 :: real"
    and ?b4 = "- 13.28068155288572 :: real" and ?R = "0.2264 :: real"
  have c0: "0 < (((((?b0 * ?R + ?b1) * ?R + ?b2) * ?R + ?b3) * ?R + ?b4) * ?R + 1)" by simp
  have c1: "0 \<le> - (5 * ?b0 * ?R ^ 4 + 4 * ?b1 * ?R ^ 3 + 3 * ?b2 * ?R\<^sup>2 + 2 * ?b3 * ?R + ?b4)"
    by (simp add: power2_eq_square power3_eq_cube power4_eq_xxxx)
  have c2: "0 \<le> (10 * ?b0 * ?R ^ 3 + 6 * ?b1 * ?R\<^sup>2 + 3 * ?b2 * ?R + ?b3)"
    by (simp add: power2_eq_square power3_eq_cube)
  have c3: "0 \<le> - (10 * ?b0 * ?R\<^sup>2 + 4 * ?b1 * ?R + ?b2)"
    by (simp add: power2_eq_square)
  have c4: "0 \<le> (5 * ?b0 * ?R + ?b1)" by simp
  have c5: "0 \<le> - ?b0" by simp
  have "0 \<le> t * (- (5 * ?b0 * ?R ^ 4 + 4 * ?b1 * ?R ^ 3 + 3 * ?b2 * ?R\<^sup>2 + 2 * ?b3 * ?R + ?b4)
    + t * ((10 * ?b0 * ?R ^ 3 + 6 * ?b1 * ?R\<^sup>2 + 3 * ?b2 * ?R + ?b3)
    + t * (- (10 * ?b0 * ?R\<^sup>2 + 4 * ?b1 * ?R + ?b2)
    + t * ((5 * ?b0 * ?R + ?b1)
    + t * (- ?b0)))))"
    by (rule nested_nonneg [OF t c1 c2 c3 c4 c5])
  with c0 show ?thesis
    unfolding quintic_shift [of ?b0 r ?b1 ?b2 ?b3 ?b4 ?R] t_def [symmetric] by linarith
qed

lemma horner_D_pos:
  assumes "0 \<le> q"
  shows "0 < horner (coeffs_D @ [1]) q"
proof -
  have "0 \<le> (((0.007784695709041462 * q + 0.3224671290700398) * q + 2.445134137142996) * q
               + 3.754408661907416) * q"
    using assms by (intro mult_nonneg_nonneg add_nonneg_nonneg) simp_all
  then show ?thesis
    by (simp add: horner_def coeffs_D_def)
qed

lemma horner_B_pos:
  assumes "r \<le> 0.2264"
  shows "0 < horner (coeffs_B @ [1]) r"
  using denominator_B_pos [OF assms] by (simp add: horner_def coeffs_B_def)

lemma central_square_bound:
  fixes p :: real
  assumes "0.02425 \<le> p" "p \<le> 0.97575"
  shows "(p - 0.5)\<^sup>2 \<le> 0.2264"
proof -
  have "\<bar>p - 0.5\<bar> \<le> 0.47575" using assms unfolding abs_le_iff by simp
  then have "(p - 0.5)\<^sup>2 \<le> 0.47575\<^sup>2"
    by (metis abs_ge_zero power2_abs power_mono)
  also have "(0.47575 :: real)\<^sup>2 \<le> 0.2264" by (simp add: power2_eq_square)
  finally show ?thesis .
qed

lemma tail_numerator:
  "((((c ! 0 * Num q + c ! 1) * Num q + c ! 2) * Num q + c ! 3) * Num q + c ! 4) * Num q + c ! 5
     = Num (horner coeffs_C q)"
  by (simp add: c_def coeffs_C_def horner_def)

lemma tail_denominator:
  "(((d ! 0 * Num q + d ! 1) * Num q + d ! 2) * Num q + d ! 3) * Num q + Num 1
     = Num (horner (coeffs_D @ [1]) q)"
  by (simp add: d_def coeffs_D_def horner_def)

lemma central_numerator:
  "((((a ! 0 * Num r + a ! 1) * Num r + a ! 2) * Num r + a ! 3) * Num r + a ! 4) * Num r + a ! 5
     = Num (horner coeffs_A r)"
  by (simp add: a_def coeffs_A_def horner_def)

lemma central_denominator:
  "((((b ! 0 * Num r + b ! 1) * Num r + b ! 2) * Num r + b ! 3) * Num r + b ! 4) * Num r + Num 1
     = Num (horner (coeffs_B @ [1]) r)"
  by (simp add: b_def coeffs_B_def horner_def)

lemma normalInverse_lower:
  assumes "0 < p" "p < 0.02425"
  shows "normalInverse (Num p) = Num (quantile p)"
proof -
  have reg: "region_of (Num p) = Lower"
    using assms by (simp add: region_of_def pLow_def)
  have "ln p < 0" using assms by simp
  then have arg: "0 < - 2 * ln p" by simp
  have q: "Math_sqrt (Num (- 2) * Math_log (Num p)) = Num (sqrt (- 2 * ln p))"
    using assms arg by simp
  have "0 < horner (coeffs_D @ [1]) (sqrt (- 2 * ln p))"
    using arg by (intro horner_D_pos) simp
  then show ?thesis
    using assms
    unfolding normalInverse_def reg region.case Let_def q tail_numerator tail_denominator
      quantile_def
    by simp
qed

lemma normalInverse_central:
  assumes "0.02425 \<le> p" "p \<le> 0.97575"
  shows "normalInverse (Num p) = Num (quantile p)"
proof -
  have reg: "region_of (Num p) = Central"
    using assms by (simp add: region_of_def pLow_def pHigh_eq)
  have q: "Num p - Num 0.5 = Num (p - 0.5)" by simp
  have r: "Num (p - 0.5) * Num (p - 0.5) = Num ((p - 0.5)\<^sup>2)"
    by (simp add: power2_eq_square)
  have "0 < horner (coeffs_B @ [1]) ((p - 0.5)\<^sup>2)"
    by (rule horner_B_pos [OF central_square_bound [OF assms]])
  then have den: "horner (coeffs_B @ [1]) ((p - 0.5)\<^sup>2) \<noteq> 0" by simp
  have "normalInverse (Num p) =
      Num (horner coeffs_A ((p - 0.5)\<^sup>2)) * Num (p - 0.5) /
      Num (horner (coeffs_B @ [1]) ((p - 0.5)\<^sup>2))"
    unfolding normalInverse_def reg region.case Let_def q r central_numerator
      central_denominator ..
  also have "\<dots> = Num (horner coeffs_A ((p - 0.5)\<^sup>2) * (p - 0.5) /
      horner (coeffs_B @ [1]) ((p - 0.5)\<^sup>2))"
    using den by simp
  also have "\<dots> = Num (quantile p)"
    using assms by (simp add: quantile_def Let_def mult.commute)
  finally show ?thesis .
qed

lemma normalInverse_upper:
  assumes "0.97575 < p" "p < 1"
  shows "normalInverse (Num p) = Num (quantile p)"
proof -
  have reg: "region_of (Num p) = Upper"
    using assms by (simp add: region_of_def pLow_def pHigh_eq)
  have "ln (1 - p) < 0" using assms by simp
  then have arg: "0 < - 2 * ln (1 - p)" by simp
  have q: "Math_sqrt (Num (- 2) * Math_log (Num 1 - Num p)) = Num (sqrt (- 2 * ln (1 - p)))"
    using assms arg by simp
  have "0 < horner (coeffs_D @ [1]) (sqrt (- 2 * ln (1 - p)))"
    using arg by (intro horner_D_pos) simp
  then have den: "horner (coeffs_D @ [1]) (sqrt (- 2 * ln (1 - p))) \<noteq> 0" by simp
  have "normalInverse (Num p) =
      (- Num (horner coeffs_C (sqrt (- 2 * ln (1 - p))))) /
      Num (horner (coeffs_D @ [1]) (sqrt (- 2 * ln (1 - p))))"
    unfolding normalInverse_def reg region.case Let_def q tail_numerator tail_denominator ..
  also have "\<dots> = Num (- (horner coeffs_C (sqrt (- 2 * ln (1 - p))) /
      horner (coeffs_D @ [1]) (sqrt (- 2 * ln (1 - p)))))"
    using den by simp
  also have "\<dots> = Num (quantile p)"
    using assms by (simp add: quantile_def Let_def)
  finally show ?thesis .
qed

lemma normalInverse_quantile:
  assumes "0 < p" "p < 1"
  shows "normalInverse (Num p) = Num (quantile p)"
proof -
  consider "p < 0.02425" | "0.02425 \<le> p" "p \<le> 0.97575" | "0.97575 < p"
    by linarith
  then show ?thesis
    using assms normalInverse_lower normalInverse_central normalInverse_upper by cases simp_all
qed

text \<open>
  In exact arithmetic the three branches mirror each other: the quantile of \<open>1 - p\<close> is the
  negated quantile of \<open>p\<close>, with no error at all. Any deviation of the script from this
  symmetry is rounding of its double arithmetic, which is not represented here.
\<close>

lemma quantile_antisymmetric_exact:
  assumes "0 < p" "p < 1"
  shows "quantile (1 - p) = - quantile p"
proof -
  consider "p < 0.02425" | "0.02425 \<le> p" "p \<le> 0.97575" | "0.97575 < p"
    by linarith
  then show ?thesis
  proof cases
    case 1
    then have "\<not> 1 - p < 0.02425" "\<not> 1 - p \<le> 1 - 0.02425" by simp_all
    with 1 show ?thesis by (simp add: quantile_def Let_def)
  next
    case 2
    then have "\<not> 1 - p < 0.02425" "1 - p \<le> 1 - 0.02425" "\<not> p < 0.02425" "p \<le> 1 - 0.02425"
      by simp_all
    moreover have "(1 - p - 0.5)\<^sup>2 = (p - 0.5)\<^sup>2"
      by (simp add: power2_eq_square algebra_simps)
    moreover have "1 - p - 0.5 = - (p - 0.5)" by simp
    ultimately show ?thesis
      unfolding quantile_def Let_def by (simp only: if_True if_False)
  next
    case 3
    then have "1 - p < 0.02425" "\<not> p < 0.02425" "\<not> p \<le> 1 - 0.02425" by simp_all
    then show ?thesis by (simp add: quantile_def Let_def)
  qed
qed

lemma normalInverse_antisymmetric_exact:
  assumes "0 < p" "p < 1"
  shows "normalInverse (Num (1 - p)) = - normalInverse (Num p)"
  using assms by (simp add: normalInverse_quantile quantile_antisymmetric_exact)

section \<open>The calculator on inputs that pass validation\<close>

text \<open>
  What a run that passes the checks has bound: each constant as the Number expression of
  its declaration, on the constants bound before it, and the five conditions that did not
  throw.
\<close>

lemma try_InrD:
  assumes "calculateSampleSize_try bcr mde alpha power' twoSided splitRatio = Inr cs"
  shows "c_p1 cs = bcr / Num 100"
    and "c_p2 cs = c_p1 cs * (Num 1 + mde / Num 100)"
    and "c_zAlpha cs = (if twoSided then normalInverse (Num 1 - alpha / Num 2)
                         else normalInverse (Num 1 - alpha))"
    and "c_zBeta cs = normalInverse power'"
    and "c_delta cs = Math_abs (c_p2 cs - c_p1 cs)"
    and "c_nEqual cs = Num 2 * Math_pow (c_zAlpha cs + c_zBeta cs) 2 * c_p1 cs
                         * (Num 1 - c_p1 cs) / Math_pow (c_delta cs) 2"
    and "c_k cs = splitRatio / (Num 1 - splitRatio)"
    and "c_controlSize cs = Math_ceil (c_nEqual cs * (Num 1 + Num 1 / c_k cs) / Num 2)"
    and "c_testSize cs = Math_ceil (c_controlSize cs * c_k cs)"
    and "c_totalSize cs = c_controlSize cs + c_testSize cs"
    and "\<not> (c_p1 cs \<le> Num 0 \<or> c_p1 cs \<ge> Num 1)"
    and "\<not> (c_p2 cs \<le> Num 0 \<or> c_p2 cs > Num 1)"
    and "\<not> (alpha \<le> Num 0 \<or> alpha \<ge> Num 1)"
    and "\<not> (power' \<le> Num 0 \<or> power' \<ge> Num 1)"
    and "\<not> (splitRatio \<le> Num 0 \<or> splitRatio \<ge> Num 1)"
  using assms unfolding calculateSampleSize_try_def Let_def
  by (auto split: if_splits)

lemma passes_range_check:
  assumes "\<not> (x \<le> Num 0 \<or> x \<ge> Num 1)"
  shows "x = NaN \<or> (\<exists>r. x = Num r \<and> 0 < r \<and> r < 1)"
  using assms by (cases x) auto

text \<open>The same run in exact arithmetic, on real inputs.\<close>

lemma zAlpha_valid:
  assumes "0 < alpha" "alpha < 1"
  shows "(if twoSided then normalInverse (Num 1 - Num alpha / Num 2)
          else normalInverse (Num 1 - Num alpha)) = Num (spec_zAlpha alpha twoSided)"
  using assms by (simp add: spec_zAlpha_def normalInverse_quantile)

lemma try_valid:
  assumes "valid_input bcr mde alpha power' splitRatio"
  shows "calculateSampleSize_try (Num bcr) (Num mde) (Num alpha) (Num power') twoSided
           (Num splitRatio) =
         (let p1 = spec_p1 bcr; p2 = spec_p2 bcr mde;
              zAlpha = spec_zAlpha alpha twoSided; zBeta = spec_zBeta power';
              delta = spec_delta bcr mde;
              nEqual = Num (2 * (zAlpha + zBeta)\<^sup>2 * p1 * (1 - p1)) / Num (delta\<^sup>2);
              k = spec_k splitRatio;
              controlSize = Math_ceil (nEqual * Num (1 + 1 / k) / Num 2);
              testSize = Math_ceil (controlSize * Num k)
          in Inr \<lparr>c_p1 = Num p1, c_p2 = Num p2, c_zAlpha = Num zAlpha, c_zBeta = Num zBeta,
                  c_delta = Num delta, c_nEqual = nEqual, c_k = Num k,
                  c_controlSize = controlSize, c_testSize = testSize,
                  c_totalSize = controlSize + testSize\<rparr>)"
proof -
  from assms have v: "0 < spec_p1 bcr" "spec_p1 bcr < 1" "0 < spec_p2 bcr mde"
    "spec_p2 bcr mde \<le> 1" "0 < alpha" "alpha < 1" "0 < power'" "power' < 1"
    "0 < splitRatio" "splitRatio < 1"
    by (simp_all add: valid_input_def)
  have p1: "Num bcr / Num 100 = Num (spec_p1 bcr)"
    by (simp add: spec_p1_def)
  have p2: "Num (spec_p1 bcr) * (Num 1 + Num mde / Num 100) = Num (spec_p2 bcr mde)"
    by (simp add: spec_p2_def)
  have zB: "normalInverse (Num power') = Num (spec_zBeta power')"
    using v by (simp add: spec_zBeta_def normalInverse_quantile)
  have delta: "Math_abs (Num (spec_p2 bcr mde) - Num (spec_p1 bcr)) = Num (spec_delta bcr mde)"
    by (simp add: spec_delta_def)
  have k: "Num splitRatio / (Num 1 - Num splitRatio) = Num (spec_k splitRatio)"
    using v by (simp add: spec_k_def)
  have "spec_k splitRatio \<noteq> 0" using v by (simp add: spec_k_def)
  then have k1: "Num 1 + Num 1 / Num (spec_k splitRatio) = Num (1 + 1 / spec_k splitRatio)"
    by simp
  have num: "Num 2 * Math_pow (Num (spec_zAlpha alpha twoSided) + Num (spec_zBeta power')) 2
      * Num (spec_p1 bcr) * (Num 1 - Num (spec_p1 bcr))
      = Num (2 * (spec_zAlpha alpha twoSided + spec_zBeta power')\<^sup>2 * spec_p1 bcr
          * (1 - spec_p1 bcr))"
    by simp
  have den: "Math_pow (Num (spec_delta bcr mde)) 2 = Num ((spec_delta bcr mde)\<^sup>2)"
    by simp
  have checks: "\<not> (Num (spec_p1 bcr) \<le> Num 0 \<or> Num 1 \<le> Num (spec_p1 bcr))"
    "\<not> (Num (spec_p2 bcr mde) \<le> Num 0 \<or> Num 1 < Num (spec_p2 bcr mde))"
    "\<not> (Num alpha \<le> Num 0 \<or> Num 1 \<le> Num alpha)"
    "\<not> (Num power' \<le> Num 0 \<or> Num 1 \<le> Num power')"
    "\<not> (Num splitRatio \<le> Num 0 \<or> Num 1 \<le> Num splitRatio)"
    using v by simp_all
  show ?thesis
    unfolding calculateSampleSize_try_def Let_def p1 p2 if_not_P [OF checks(1)]
      if_not_P [OF checks(2)] if_not_P [OF checks(3)] if_not_P [OF checks(4)]
      if_not_P [OF checks(5)] zAlpha_valid [OF v(5,6)] zB delta k k1 num den ..
qed

lemma try_valid_nonzero:
  assumes "valid_input bcr mde alpha power' splitRatio" and "0 < spec_delta bcr mde"
  shows "calculateSampleSize_try (Num bcr) (Num mde) (Num alpha) (Num power') twoSided
           (Num splitRatio) =
         (let p1 = spec_p1 bcr; p2 = spec_p2 bcr mde;
              zAlpha = spec_zAlpha alpha twoSided; zBeta = spec_zBeta power';
              delta = spec_delta bcr mde;
              nEqual = spec_nEqual zAlpha zBeta p1 delta;
              k = spec_k splitRatio;
              control = spec_controlSize nEqual k;
              test = spec_testSize control k
          in Inr \<lparr>c_p1 = Num p1, c_p2 = Num p2, c_zAlpha = Num zAlpha, c_zBeta = Num zBeta,
                  c_delta = Num delta, c_nEqual = Num nEqual, c_k = Num k,
                  c_controlSize = Num (of_int control), c_testSize = Num (of_int test),
                  c_totalSize = Num (of_int (spec_totalSize control test))\<rparr>)"
proof -
  have "(spec_delta bcr mde)\<^sup>2 \<noteq> 0" using assms(2) by simp
  then have n: "Num (2 * (spec_zAlpha alpha twoSided + spec_zBeta power')\<^sup>2 * spec_p1 bcr
        * (1 - spec_p1 bcr)) / Num ((spec_delta bcr mde)\<^sup>2)
      = Num (spec_nEqual (spec_zAlpha alpha twoSided) (spec_zBeta power') (spec_p1 bcr)
          (spec_delta bcr mde))"
    by (simp add: spec_nEqual_def)
  show ?thesis
    unfolding try_valid [OF assms(1)] Let_def n
    by (simp add: spec_controlSize_def spec_testSize_def spec_totalSize_def)
qed


text \<open>
  The checks are written as \<^verbatim>\<open>p1 <= 0 || p1 >= 1\<close> and so on, and a comparison with \<^verbatim>\<open>NaN\<close> is
  false: a \<^verbatim>\<open>NaN\<close> rate passes them. The caller \<^verbatim>\<open>updateResults\<close> rejects \<^verbatim>\<open>NaN\<close> fields before it
  calls the calculator.
\<close>

lemma NaN_passes_the_checks:
  "calculateSampleSize NaN (Num 30) (Num 0.05) (Num 0.8) True (Num 0.5)
     = Inr \<lparr>controlSize = NaN, testSize = NaN, totalSize = NaN\<rparr>"
  by (simp add: calculateSampleSize_def calculateSampleSize_try_def normalInverse_quantile
      divide_jsnum_def minus_jsnum_def)

section \<open>The quantile function outside the open unit interval\<close>

lemma log_nonpositive:
  assumes "x \<le> 0"
  shows "Math_sqrt (Num (- 2) * Math_log (Num x)) = (if x = 0 then PosInf else NaN)"
  using assms by (simp add: signed_inf_def)

lemma tail_nonfinite:
  assumes "q = PosInf \<or> q = NaN"
  shows "(((((c ! 0 * q + c ! 1) * q + c ! 2) * q + c ! 3) * q + c ! 4) * q + c ! 5) /
         ((((d ! 0 * q + d ! 1) * q + d ! 2) * q + d ! 3) * q + Num 1) = NaN"
    and "(- (((((c ! 0 * q + c ! 1) * q + c ! 2) * q + c ! 3) * q + c ! 4) * q + c ! 5)) /
         ((((d ! 0 * q + d ! 1) * q + d ! 2) * q + d ! 3) * q + Num 1) = NaN"
  using assms by (auto simp: c_def d_def signed_inf_def divide_jsnum_def)

section \<open>Values of the quantile function and a standard input\<close>

lemma quantile_half: "quantile (1 / 2) = 0"
  by (simp add: quantile_def)

lemma quantile_0975: "1.9 < quantile 0.975"
  by (simp add: quantile_def horner_def coeffs_A_def coeffs_B_def power2_eq_square)

lemma quantile_08: "0.8 < quantile 0.8"
  by (simp add: quantile_def horner_def coeffs_A_def coeffs_B_def power2_eq_square)

lemma standard_input_valid: "valid_input 5 30 0.05 0.8 0.5" "0 < spec_delta 5 30"
  by (simp_all add: valid_input_def spec_p1_def spec_p2_def spec_delta_def)

lemma standard_zscores: "spec_zAlpha 0.05 True + spec_zBeta 0.8 \<noteq> 0"
  using quantile_0975 quantile_08 by (simp add: spec_zAlpha_def spec_zBeta_def)

lemma standard_run:
  "\<exists>cs. calculateSampleSize_try (Num 5) (Num 30) (Num 0.05) (Num 0.8) True (Num 0.5) = Inr cs
      \<and> c_p1 cs = Num 0.05 \<and> c_p2 cs = Num 0.065
      \<and> c_zAlpha cs = Num (spec_zAlpha 0.05 True) \<and> c_zBeta cs = Num (spec_zBeta 0.8)
      \<and> c_delta cs = Num 0.015
      \<and> c_nEqual cs = Num (spec_nEqual (spec_zAlpha 0.05 True) (spec_zBeta 0.8) 0.05 0.015)
      \<and> c_k cs = Num 1
      \<and> c_controlSize cs = Num (of_int (spec_controlSize
            (spec_nEqual (spec_zAlpha 0.05 True) (spec_zBeta 0.8) 0.05 0.015) 1))"
proof -
  have vals: "spec_p1 5 = 0.05" "spec_p2 5 30 = 0.065" "spec_delta 5 30 = 0.015"
    "spec_k 0.5 = 1"
    by (simp_all add: spec_p1_def spec_p2_def spec_delta_def spec_k_def)
  show ?thesis
    unfolding try_valid_nonzero [OF standard_input_valid] Let_def vals
    by (simp only: sum.inject consts_bound.select_convs simp_thms ex_simps)
qed

section \<open>Signs and special cases of the sample size formulas\<close>


lemma ceil_times_one: "Math_ceil (Math_ceil x * Num 1) = Math_ceil x"
  by (cases x) (simp_all add: signed_inf_def)

lemma positive_over_zero:
  assumes "0 < x"
  shows "Num x / Num (0\<^sup>2) = PosInf"
  using assms by (simp add: divide_jsnum_def signed_inf_def)

lemma nEqual_at_zero_delta:
  assumes "\<not> (p1 \<le> Num 0 \<or> p1 \<ge> Num 1)"
  shows "Num 2 * Math_pow z 2 * p1 * (Num 1 - p1) / Math_pow (Num 0) 2 = PosInf \<or>
         Num 2 * Math_pow z 2 * p1 * (Num 1 - p1) / Math_pow (Num 0) 2 = NaN"
proof -
  from passes_range_check [OF assms] show ?thesis
  proof
    assume "p1 = NaN"
    then show ?thesis by (cases "Num 2 * Math_pow z 2") (simp_all add: divide_jsnum_def)
  next
    assume "\<exists>r. p1 = Num r \<and> 0 < r \<and> r < 1"
    then obtain r where r: "p1 = Num r" "0 < r" "r < 1" by blast
    show ?thesis
    proof (cases z)
      case (Num x)
      have "0 \<le> 2 * x\<^sup>2 * r * (1 - r)"
        using r by (intro mult_nonneg_nonneg) simp_all
      then have "2 * x\<^sup>2 * r * (1 - r) = 0 \<or> 0 < 2 * x\<^sup>2 * r * (1 - r)" by linarith
      then show ?thesis
      proof
        assume "2 * x\<^sup>2 * r * (1 - r) = 0"
        then have "Num (2 * x\<^sup>2 * r * (1 - r)) / Num (0\<^sup>2) = NaN"
          by (simp add: divide_jsnum_def)
        then show ?thesis unfolding Num r by simp
      next
        assume "0 < 2 * x\<^sup>2 * r * (1 - r)"
        then have "Num (2 * x\<^sup>2 * r * (1 - r)) / Num (0\<^sup>2) = PosInf"
          by (rule positive_over_zero)
        then show ?thesis unfolding Num r by simp
      qed
    next
      case PosInf
      then show ?thesis using r by (simp add: signed_inf_def divide_jsnum_def)
    next
      case NegInf
      then show ?thesis using r by (simp add: signed_inf_def divide_jsnum_def)
    next
      case NaN
      then show ?thesis by (simp add: divide_jsnum_def)
    qed
  qed
qed

lemma sizes_of_nonfinite_nEqual:
  assumes "\<not> (s \<le> Num 0 \<or> s \<ge> Num 1)" and "n = PosInf \<or> n = NaN"
  shows "(Math_ceil (n * (Num 1 + Num 1 / (s / (Num 1 - s))) / Num 2) = PosInf \<and>
          Math_ceil (Math_ceil (n * (Num 1 + Num 1 / (s / (Num 1 - s))) / Num 2)
                       * (s / (Num 1 - s))) = PosInf) \<or>
         (Math_ceil (n * (Num 1 + Num 1 / (s / (Num 1 - s))) / Num 2) = NaN \<and>
          Math_ceil (Math_ceil (n * (Num 1 + Num 1 / (s / (Num 1 - s))) / Num 2)
                       * (s / (Num 1 - s))) = NaN)"
proof -
  from passes_range_check [OF assms(1)] show ?thesis
  proof
    assume "s = NaN"
    then show ?thesis by (cases n) (simp_all add: divide_jsnum_def minus_jsnum_def)
  next
    assume "\<exists>r. s = Num r \<and> 0 < r \<and> r < 1"
    then obtain r where r: "s = Num r" "0 < r" "r < 1" by blast
    define k where "k = r / (1 - r)"
    have k: "0 < k" using r by (simp add: k_def)
    then have "0 < 1 / k" by simp
    then have k1: "0 < 1 + 1 / k" by (simp add: add_pos_pos)
    have sk: "s / (Num 1 - s) = Num k" using r by (simp add: k_def)
    have f: "Num 1 + Num 1 / Num k = Num (1 + 1 / k)" using k by simp
    from assms(2) show ?thesis
      unfolding sk f using k k1 by (auto simp: signed_inf_def divide_jsnum_def)
  qed
qed

lemma ceil_of_positive:
  assumes "Num 0 < y"
  shows "Num 1 \<le> Math_ceil y"
  using assms by (cases y) simp_all

lemma positive_scaled_value:
  assumes "\<not> (s \<le> Num 0 \<or> s \<ge> Num 1)"
    and "Num 0 < n * (Num 1 + Num 1 / (s / (Num 1 - s))) / Num 2"
  shows "\<exists>k. s / (Num 1 - s) = Num k \<and> 0 < k"
proof -
  from passes_range_check [OF assms(1)] show ?thesis
  proof
    assume "s = NaN"
    then have "n * (Num 1 + Num 1 / (s / (Num 1 - s))) / Num 2 = NaN"
      by (cases n) (simp_all add: divide_jsnum_def minus_jsnum_def)
    with assms(2) show ?thesis by simp
  next
    assume "\<exists>r. s = Num r \<and> 0 < r \<and> r < 1"
    then obtain r where r: "s = Num r" "0 < r" "r < 1" by blast
    then have "s / (Num 1 - s) = Num (r / (1 - r))" "0 < r / (1 - r)" by simp_all
    then show ?thesis by blast
  qed
qed

lemma ceil_of_product:
  assumes "Num 1 \<le> x" and "0 < k"
  shows "Num 1 \<le> Math_ceil (x * Num k)"
proof (cases x)
  case (Num c)
  with assms have "0 < c * k" by simp
  then have "Num 0 < x * Num k" using Num by simp
  then show ?thesis by (rule ceil_of_positive)
next
  case PosInf
  then show ?thesis using assms by (simp add: signed_inf_def)
next
  case NegInf
  with assms show ?thesis by simp
next
  case NaN
  with assms show ?thesis by simp
qed

section \<open>The claims\<close>

text \<open>
  The theorems of C1, C2, C4, C5, C6 and C9 are about every run that passes the checks of
  the code, whatever Numbers the inputs are, and are stated on the constants that the run
  has bound and on the Number operations. They rest on the shape of the expressions, on
  signs, on special values and on \<open>0.5 / (1 - 0.5) = 1\<close>, not on the value of an operation
  that a double would round.
\<close>



text \<open>
  C2, as the claim states it, fails: with a zero effect the calculator raises no error. At
  \<open>bcr = 5\<close>, \<open>mde = 0\<close>, \<open>alpha = 0.05\<close>, \<open>power = 0.8\<close>, two-sided, \<open>splitRatio = 0.5\<close> it
  returns an object whose three sizes are positive infinity.
\<close>

theorem zero_effect_counterexample:
  "valid_input 5 0 0.05 0.8 0.5 \<and> spec_delta 5 0 = 0 \<and>
   calculateSampleSize (Num 5) (Num 0) (Num 0.05) (Num 0.8) True (Num 0.5)
     = Inr \<lparr>controlSize = PosInf, testSize = PosInf, totalSize = PosInf\<rparr>"
proof -
  have v: "valid_input 5 0 0.05 0.8 0.5"
    by (simp add: valid_input_def spec_p1_def spec_p2_def)
  have d: "spec_delta 5 0 = 0"
    by (simp add: spec_delta_def spec_p1_def spec_p2_def)
  have k: "spec_k 0.5 = 1" by (simp add: spec_k_def)
  have p1: "spec_p1 5 = 0.05" by (simp add: spec_p1_def)
  from standard_zscores have "0 < (spec_zAlpha 0.05 True + spec_zBeta 0.8)\<^sup>2" by simp
  then have "0 < 2 * (spec_zAlpha 0.05 True + spec_zBeta 0.8)\<^sup>2 * 0.05 * (1 - 0.05)"
    by (intro mult_pos_pos) simp_all
  then have n: "Num (2 * (spec_zAlpha 0.05 True + spec_zBeta 0.8)\<^sup>2 * 0.05 * (1 - 0.05))
      / Num (0\<^sup>2) = PosInf"
    by (rule positive_over_zero)
  have "calculateSampleSize (Num 5) (Num 0) (Num 0.05) (Num 0.8) True (Num 0.5)
     = Inr \<lparr>controlSize = PosInf, testSize = PosInf, totalSize = PosInf\<rparr>"
    unfolding calculateSampleSize_def try_valid [OF v] Let_def d p1 n k
    by (simp add: signed_inf_def divide_jsnum_def)
  with v d show ?thesis by simp
qed

text \<open>
  C2, amended. When the \<^verbatim>\<open>delta\<close> of a validated input is zero, the calculator raises no
  error: the division by zero propagates, and the object returned has three non-finite
  sizes, all positive infinity or all \<^verbatim>\<open>NaN\<close>.
\<close>

theorem zero_delta_nonfinite_sizes:
  assumes "calculateSampleSize_try bcr mde alpha power' twoSided splitRatio = Inr cs"
    and "c_delta cs = Num 0"
  shows "calculateSampleSize bcr mde alpha power' twoSided splitRatio
           = Inr \<lparr>controlSize = PosInf, testSize = PosInf, totalSize = PosInf\<rparr>
       \<or> calculateSampleSize bcr mde alpha power' twoSided splitRatio
           = Inr \<lparr>controlSize = NaN, testSize = NaN, totalSize = NaN\<rparr>"
proof -
  note d = try_InrD [OF assms(1)]
  have result: "calculateSampleSize bcr mde alpha power' twoSided splitRatio
      = Inr \<lparr>controlSize = c_controlSize cs, testSize = c_testSize cs,
             totalSize = c_controlSize cs + c_testSize cs\<rparr>"
    unfolding calculateSampleSize_def assms(1) by (simp add: d(10))
  have n: "c_nEqual cs = PosInf \<or> c_nEqual cs = NaN"
    unfolding d(6) assms(2) by (rule nEqual_at_zero_delta [OF d(11)])
  have "(c_controlSize cs = PosInf \<and> c_testSize cs = PosInf) \<or>
      (c_controlSize cs = NaN \<and> c_testSize cs = NaN)"
    unfolding d(9) d(8) d(7) by (rule sizes_of_nonfinite_nEqual [OF d(15) n])
  then show ?thesis
    unfolding result by auto
qed

theorem zero_delta_nonfinite_sizes_witness:
  "(\<exists>cs. calculateSampleSize_try (Num 5) (Num 0) (Num 0.05) (Num 0.8) True (Num 0.5) = Inr cs
      \<and> c_delta cs = Num 0) \<and>
   (calculateSampleSize (Num 5) (Num 0) (Num 0.05) (Num 0.8) True (Num 0.5)
      = Inr \<lparr>controlSize = PosInf, testSize = PosInf, totalSize = PosInf\<rparr>
    \<or> calculateSampleSize (Num 5) (Num 0) (Num 0.05) (Num 0.8) True (Num 0.5)
      = Inr \<lparr>controlSize = NaN, testSize = NaN, totalSize = NaN\<rparr>)"
proof -
  have v: "valid_input 5 0 0.05 0.8 0.5"
    by (simp add: valid_input_def spec_p1_def spec_p2_def)
  have z: "spec_delta 5 0 = 0"
    by (simp add: spec_delta_def spec_p1_def spec_p2_def)
  from try_valid [OF v, of True] obtain cs where
    run: "calculateSampleSize_try (Num 5) (Num 0) (Num 0.05) (Num 0.8) True (Num 0.5) = Inr cs"
    and delta: "c_delta cs = Num 0"
    unfolding Let_def z by (simp only: sum.inject consts_bound.select_convs simp_thms ex_simps)
  from zero_delta_nonfinite_sizes [OF run delta] run delta show ?thesis
    by blast
qed



text \<open>
  C4, as the claim states it, fails: a one-sided test with \<open>alpha = 0.5\<close> and \<open>power = 0.5\<close>
  has \<open>zAlpha = zBeta = 0\<close>, hence \<open>nEqual = 0\<close>, and both group sizes are \<open>0\<close> on an input that
  passes validation and has a nonzero effect.
\<close>

theorem sizes_at_least_one_counterexample:
  "valid_input 5 30 0.5 0.5 0.5 \<and> 0 < spec_delta 5 30 \<and>
   calculateSampleSize (Num 5) (Num 30) (Num 0.5) (Num 0.5) False (Num 0.5)
     = Inr \<lparr>controlSize = Num 0, testSize = Num 0, totalSize = Num 0\<rparr> \<and>
   \<not> Num 1 \<le> Num 0"
proof -
  have v: "valid_input 5 30 0.5 0.5 0.5"
    by (simp add: valid_input_def spec_p1_def spec_p2_def)
  have z: "spec_zAlpha 0.5 False = 0" "spec_zBeta 0.5 = 0"
    by (simp_all add: spec_zAlpha_def spec_zBeta_def quantile_half)
  have n: "spec_nEqual 0 0 (spec_p1 5) (spec_delta 5 30) = 0"
    by (simp add: spec_nEqual_def)
  have "calculateSampleSize (Num 5) (Num 30) (Num 0.5) (Num 0.5) False (Num 0.5)
     = Inr \<lparr>controlSize = Num 0, testSize = Num 0, totalSize = Num 0\<rparr>"
    unfolding calculateSampleSize_def try_valid_nonzero [OF v standard_input_valid(2)] Let_def z n
    by (simp add: spec_controlSize_def spec_testSize_def spec_totalSize_def)
  with v standard_input_valid(2) show ?thesis by simp
qed

text \<open>
  C4, amended. For every input that passes validation, the object returned holds the
  control size, the test size and their Number sum as the total; and both group sizes are
  at least \<open>1\<close> whenever the value \<^verbatim>\<open>nEqual * (1 + 1 / k) / 2\<close> that the ceiling of the control
  size rounds up is positive.
\<close>

theorem sizes_sum_and_lower_bound:
  assumes "calculateSampleSize_try bcr mde alpha power' twoSided splitRatio = Inr cs"
  shows "calculateSampleSize bcr mde alpha power' twoSided splitRatio
           = Inr \<lparr>controlSize = c_controlSize cs, testSize = c_testSize cs,
                  totalSize = c_controlSize cs + c_testSize cs\<rparr>
       \<and> (Num 0 < c_nEqual cs * (Num 1 + Num 1 / c_k cs) / Num 2 \<longrightarrow>
            Num 1 \<le> c_controlSize cs \<and> Num 1 \<le> c_testSize cs)"
proof
  note d = try_InrD [OF assms]
  show "calculateSampleSize bcr mde alpha power' twoSided splitRatio
      = Inr \<lparr>controlSize = c_controlSize cs, testSize = c_testSize cs,
             totalSize = c_controlSize cs + c_testSize cs\<rparr>"
    unfolding calculateSampleSize_def assms by (simp add: d(10))
  show "Num 0 < c_nEqual cs * (Num 1 + Num 1 / c_k cs) / Num 2 \<longrightarrow>
      Num 1 \<le> c_controlSize cs \<and> Num 1 \<le> c_testSize cs"
  proof
    assume pos: "Num 0 < c_nEqual cs * (Num 1 + Num 1 / c_k cs) / Num 2"
    then have control: "Num 1 \<le> c_controlSize cs"
      unfolding d(8) by (rule ceil_of_positive)
    from pos obtain k where k: "c_k cs = Num k" "0 < k"
      unfolding d(7) using positive_scaled_value [OF d(15)] by blast
    have "Num 1 \<le> c_testSize cs"
      unfolding d(9) k(1) by (rule ceil_of_product [OF control k(2)])
    with control show "Num 1 \<le> c_controlSize cs \<and> Num 1 \<le> c_testSize cs" ..
  qed
qed

theorem sizes_sum_and_lower_bound_witness:
  "\<exists>cs. calculateSampleSize_try (Num 5) (Num 30) (Num 0.05) (Num 0.8) True (Num 0.5) = Inr cs
      \<and> Num 0 < c_nEqual cs * (Num 1 + Num 1 / c_k cs) / Num 2
      \<and> calculateSampleSize (Num 5) (Num 30) (Num 0.05) (Num 0.8) True (Num 0.5)
          = Inr \<lparr>controlSize = c_controlSize cs, testSize = c_testSize cs,
                 totalSize = c_controlSize cs + c_testSize cs\<rparr>
      \<and> Num 1 \<le> c_controlSize cs \<and> Num 1 \<le> c_testSize cs"
proof -
  from standard_run obtain cs where
    run: "calculateSampleSize_try (Num 5) (Num 30) (Num 0.05) (Num 0.8) True (Num 0.5) = Inr cs"
    and fields: "c_k cs = Num 1"
      "c_nEqual cs = Num (spec_nEqual (spec_zAlpha 0.05 True) (spec_zBeta 0.8) 0.05 0.015)"
    by blast
  have "0 < spec_nEqual (spec_zAlpha 0.05 True) (spec_zBeta 0.8) 0.05 0.015"
    using standard_zscores by (simp add: spec_nEqual_def)
  then have pos: "Num 0 < c_nEqual cs * (Num 1 + Num 1 / c_k cs) / Num 2"
    unfolding fields by simp
  from sizes_sum_and_lower_bound [OF run] pos run show ?thesis
    by blast
qed








text \<open>
  C9, as the claim states it, fails: the input \<open>bcr = 5\<close>, \<open>mde = 0\<close>, \<open>alpha = 0.5\<close>,
  \<open>power = 0.5\<close>, one-sided, \<open>splitRatio = 0.5\<close> passes validation, and its sizes are \<^verbatim>\<open>NaN\<close>,
  which is neither equal to itself nor within \<open>1\<close> of itself.
\<close>

theorem equal_split_counterexample:
  "calculateSampleSize (Num 5) (Num 0) (Num 0.5) (Num 0.5) False (Num 0.5)
     = Inr \<lparr>controlSize = NaN, testSize = NaN, totalSize = NaN\<rparr> \<and>
   \<not> (NaN \<le> NaN \<and> NaN \<le> NaN) \<and>
   \<not> Math_abs (NaN - NaN) \<le> Num 1"
proof -
  have v: "valid_input 5 0 0.5 0.5 0.5"
    by (simp add: valid_input_def spec_p1_def spec_p2_def)
  have vals: "spec_delta 5 0 = 0" "spec_zAlpha 0.5 False = 0" "spec_zBeta 0.5 = 0"
    using quantile_half
    by (simp_all add: spec_delta_def spec_p1_def spec_p2_def spec_zAlpha_def spec_zBeta_def)
  have "calculateSampleSize (Num 5) (Num 0) (Num 0.5) (Num 0.5) False (Num 0.5)
     = Inr \<lparr>controlSize = NaN, testSize = NaN, totalSize = NaN\<rparr>"
    unfolding calculateSampleSize_def try_valid [OF v] Let_def vals
    by (simp add: divide_jsnum_def)
  then show ?thesis by (simp add: minus_jsnum_def)
qed

text \<open>
  C9, amended. For every input that passes validation with \<open>splitRatio = 0.5\<close> and whose
  control size is not \<^verbatim>\<open>NaN\<close>, the test size returned equals the control size exactly:
  \<open>k = 1\<close>, and the ceiling of a value already rounded up is that value.
\<close>

theorem equal_split_sizes_equal:
  assumes "calculateSampleSize_try bcr mde alpha power' twoSided (Num 0.5) = Inr cs"
    and "c_controlSize cs \<noteq> NaN"
  shows "c_testSize cs = c_controlSize cs
       \<and> c_testSize cs \<le> c_controlSize cs \<and> c_controlSize cs \<le> c_testSize cs
       \<and> calculateSampleSize bcr mde alpha power' twoSided (Num 0.5)
           = Inr \<lparr>controlSize = c_controlSize cs, testSize = c_controlSize cs,
                  totalSize = c_controlSize cs + c_controlSize cs\<rparr>"
proof -
  note d = try_InrD [OF assms(1)]
  have k: "c_k cs = Num 1" unfolding d(7) by simp
  have same: "c_testSize cs = c_controlSize cs"
    unfolding d(9) k unfolding d(8) by (rule ceil_times_one)
  have refl: "c_controlSize cs \<le> c_controlSize cs"
    using assms(2) by (cases "c_controlSize cs") simp_all
  have "calculateSampleSize bcr mde alpha power' twoSided (Num 0.5)
      = Inr \<lparr>controlSize = c_controlSize cs, testSize = c_controlSize cs,
             totalSize = c_controlSize cs + c_controlSize cs\<rparr>"
    unfolding calculateSampleSize_def assms(1) by (simp add: d(10) same)
  with same refl show ?thesis by simp
qed

theorem equal_split_sizes_equal_witness:
  "\<exists>cs. calculateSampleSize_try (Num 5) (Num 30) (Num 0.05) (Num 0.8) True (Num 0.5) = Inr cs
      \<and> c_controlSize cs \<noteq> NaN
      \<and> c_testSize cs = c_controlSize cs
      \<and> c_testSize cs \<le> c_controlSize cs \<and> c_controlSize cs \<le> c_testSize cs
      \<and> calculateSampleSize (Num 5) (Num 30) (Num 0.05) (Num 0.8) True (Num 0.5)
          = Inr \<lparr>controlSize = c_controlSize cs, testSize = c_controlSize cs,
                 totalSize = c_controlSize cs + c_controlSize cs\<rparr>"
proof -
  from standard_run obtain cs where
    run: "calculateSampleSize_try (Num 5) (Num 30) (Num 0.05) (Num 0.8) True (Num 0.5) = Inr cs"
    and control: "c_controlSize cs = Num (of_int (spec_controlSize
            (spec_nEqual (spec_zAlpha 0.05 True) (spec_zBeta 0.8) 0.05 0.015) 1))"
    by blast
  from control have finite: "c_controlSize cs \<noteq> NaN" by simp
  from equal_split_sizes_equal [OF run finite] run finite show ?thesis
    by blast
qed

text \<open>
  C10. \<^const>\<open>normalInverse\<close> is a total function of Numbers with no error result: none of the
  operations it uses can throw. Every \<open>p \<le> 0\<close>, negative infinity included, takes the
  lower-tail branch, every \<open>p \<ge> 1\<close>, positive infinity included, the upper-tail branch, and
  in both cases the result is \<^verbatim>\<open>NaN\<close>: the logarithm of a negative number is \<^verbatim>\<open>NaN\<close>, and the
  logarithm of zero makes \<open>q\<close> infinite, so that the rational function is an infinity
  divided by an infinity.
\<close>

theorem normalInverse_outside_unit_interval:
  fixes p :: real
  shows "(p \<le> 0 \<longrightarrow> region_of (Num p) = Lower \<and> normalInverse (Num p) = NaN) \<and>
         (1 \<le> p \<longrightarrow> region_of (Num p) = Upper \<and> normalInverse (Num p) = NaN) \<and>
         region_of NegInf = Lower \<and> normalInverse NegInf = NaN \<and>
         region_of PosInf = Upper \<and> normalInverse PosInf = NaN"
proof (intro conjI impI)
  show neg: "region_of NegInf = Lower"
    by (simp add: region_of_def pLow_def)
  show "normalInverse NegInf = NaN"
    unfolding normalInverse_def neg region.case Let_def
    by (rule tail_nonfinite) simp
  show pos: "region_of PosInf = Upper"
    by (simp add: region_of_def pLow_def pHigh_eq)
  show "normalInverse PosInf = NaN"
    unfolding normalInverse_def pos region.case Let_def
    by (rule tail_nonfinite) (simp add: minus_jsnum_def)
next
  assume p: "p \<le> 0"
  then show reg: "region_of (Num p) = Lower"
    by (simp add: region_of_def pLow_def)
  have q: "Math_sqrt (Num (- 2) * Math_log (Num p)) = PosInf \<or>
      Math_sqrt (Num (- 2) * Math_log (Num p)) = NaN"
    unfolding log_nonpositive [OF p] by simp
  show "normalInverse (Num p) = NaN"
    unfolding normalInverse_def reg region.case Let_def
    by (rule tail_nonfinite [OF q])
next
  assume p: "1 \<le> p"
  then show reg: "region_of (Num p) = Upper"
    by (simp add: region_of_def pLow_def pHigh_eq)
  have arg: "Num 1 - Num p = Num (1 - p)" by simp
  from p have "1 - p \<le> 0" by simp
  then have q: "Math_sqrt (Num (- 2) * Math_log (Num (1 - p))) = PosInf \<or>
      Math_sqrt (Num (- 2) * Math_log (Num (1 - p))) = NaN"
    by (simp add: signed_inf_def)
  show "normalInverse (Num p) = NaN"
    unfolding normalInverse_def reg region.case Let_def arg
    by (rule tail_nonfinite [OF q])
qed

theorem normalInverse_outside_unit_interval_witness:
  "(0::real) \<le> 0 \<and> region_of (Num 0) = Lower \<and> normalInverse (Num 0) = NaN \<and>
   (- 3::real) \<le> 0 \<and> region_of (Num (- 3)) = Lower \<and> normalInverse (Num (- 3)) = NaN \<and>
   (1::real) \<le> 1 \<and> region_of (Num 1) = Upper \<and> normalInverse (Num 1) = NaN \<and>
   (1::real) \<le> 2.5 \<and> region_of (Num 2.5) = Upper \<and> normalInverse (Num 2.5) = NaN"
  using normalInverse_outside_unit_interval [of 0] normalInverse_outside_unit_interval [of "- 3"]
    normalInverse_outside_unit_interval [of 1] normalInverse_outside_unit_interval [of "2.5"]
  by simp

end
